theory Spec2Isabelle
  imports Complex_Main
begin

section \<open>The persisted document (data\_manager.py)\<close>

text \<open>
  The data file holds one JSON object.  Its top-level keys are the ones written by
  \<open>DataManager._ensure_file\<close>; a key may be missing (the document read from a missing
  or malformed file is \<open>{}\<close>), so every field is optional.  The dictionaries map
  strings to strings; a pending entry is the four-key object written by
  \<open>create_pending_binding\<close>.  Times are the values of \<open>time.time()\<close>, taken as
  real numbers of seconds.
\<close>

record pending_binding =
  username :: string
  code :: string
  expire_time :: real
  request_time :: real

record document =
  bindings :: "(string \<rightharpoonup> string) option"
  user_qq_map :: "(string \<rightharpoonup> string) option"
  notifications :: "(string \<rightharpoonup> string) option"
  groups :: "string list option"
  pending_bindings :: "(string \<rightharpoonup> pending_binding) option"

text \<open>The document \<open>{}\<close>, and the document written by \<open>_ensure_file\<close>.\<close>

definition empty_document :: document where
  "empty_document =
     \<lparr>bindings = None, user_qq_map = None, notifications = None,
      groups = None, pending_bindings = None\<rparr>"

definition default_document :: document where
  "default_document =
     \<lparr>bindings = Some Map.empty, user_qq_map = Some Map.empty,
      notifications = Some Map.empty, groups = Some [],
      pending_bindings = Some Map.empty\<rparr>"

text \<open>\<open>data.get(key, {})\<close> and \<open>data.get("groups", [])\<close>.\<close>

definition get_dict :: "('k \<rightharpoonup> 'v) option \<Rightarrow> ('k \<rightharpoonup> 'v)" where
  "get_dict f = (case f of None \<Rightarrow> Map.empty | Some m \<Rightarrow> m)"

definition get_list :: "'a list option \<Rightarrow> 'a list" where
  "get_list f = (case f of None \<Rightarrow> [] | Some xs \<Rightarrow> xs)"

text \<open>
  Python truthiness of an \<open>Optional[str]\<close>: \<open>None\<close> and the empty string are false.
\<close>

definition truthy :: "string option \<Rightarrow> bool" where
  "truthy v = (case v of None \<Rightarrow> False | Some s \<Rightarrow> s \<noteq> [])"

section \<open>The file and the lock\<close>

text \<open>
  \<open>_load\<close> opens the data file as UTF-8 text and parses it with \<open>json.load\<close>.  It
  catches \<open>FileNotFoundError\<close> and \<open>json.JSONDecodeError\<close> and returns \<open>{}\<close> for
  them; any other exception leaves the method.  Bytes that are not UTF-8 text make the
  read raise \<open>UnicodeDecodeError\<close>, which is neither of the two.

  \<open>file_content\<close> is what \<open>_load\<close> can find when the read raises no decoding
  error: no file, text that is not JSON (this includes the empty file), or a document
  (a file with JSON in it is taken to hold an object of the shape of \<open>document\<close>).
  \<open>load_text\<close> is the value of \<open>_load\<close> in these three cases.  \<open>disk_file\<close> adds the
  file whose bytes are not UTF-8 text, and \<open>load\<close> is \<open>_load\<close> on every file.
\<close>

datatype file_content = FileMissing | FileMalformed | FileJson document

fun load_text :: "file_content \<Rightarrow> document" where
  "load_text FileMissing = empty_document"
| "load_text FileMalformed = empty_document"
| "load_text (FileJson d) = d"

datatype error = UnicodeDecodeError

datatype disk_file = Undecodable | Readable file_content

fun load :: "disk_file \<Rightarrow> error + document" where
  "load Undecodable = Inl UnicodeDecodeError"
| "load (Readable f) = Inr (load_text f)"

text \<open>
  \<open>_save\<close> opens the data file itself with mode \<open>'w'\<close>, which truncates it, and dumps
  the serialized document into it.  \<open>save_steps\<close> lists the contents of the file that
  a reader can find in the course of one \<open>_save\<close>: the old content before the
  \<open>open\<close>; an empty file or a proper prefix of the serialization (no valid JSON, the
  closing brace of the top-level object is missing) from the \<open>open\<close> until the dump
  is complete; the new document afterwards.  \<open>save\<close> is the completed call.
\<close>

definition save_steps :: "document \<Rightarrow> file_content \<Rightarrow> file_content list" where
  "save_steps data f = [f, FileMalformed, FileJson data]"

definition save :: "document \<Rightarrow> file_content \<Rightarrow> file_content" where
  "save data f = last (save_steps data f)"

text \<open>
  The store is a data file that \<open>_load\<close> reads without a decoding error, together with
  a count of the acquisitions of \<open>self.lock\<close> so far (the count is not in the program;
  it records how many \<open>with self.lock:\<close> blocks have been entered).  Every \<open>_save\<close>
  leaves such a file, so an operation that has loaded the file once stays within stores.
\<close>

record store =
  data_file :: file_content
  lock_acquisitions :: nat

text \<open>
  One \<open>with self.lock:\<close> block on a store: the lock is taken, the document is loaded,
  the body computes a result and, on the paths that reach \<open>self._save(data)\<close>, the
  document to save.
\<close>

definition with_lock :: "(document \<Rightarrow> 'a \<times> document option) \<Rightarrow> store \<Rightarrow> 'a \<times> store" where
  "with_lock body s =
     (case body (load_text (data_file s)) of
        (r, None) \<Rightarrow> (r, s\<lparr>lock_acquisitions := Suc (lock_acquisitions s)\<rparr>)
      | (r, Some data) \<Rightarrow>
          (r, \<lparr>data_file = save data (data_file s),
               lock_acquisitions = Suc (lock_acquisitions s)\<rparr>))"

text \<open>
  An operation of the data manager or of the handlers, called while the data file on
  disk is \<open>d\<close> and the lock has been taken \<open>n\<close> times.  Every operation starts with a
  \<open>with self.lock:\<close> block whose first statement is \<open>data = self._load()\<close>: if that
  raises, the exception leaves the operation and nothing has been written; otherwise the
  operation runs on the store.
\<close>

fun on_file :: "(store \<Rightarrow> 'a \<times> store) \<Rightarrow> disk_file \<Rightarrow> nat \<Rightarrow> error + 'a \<times> store" where
  "on_file operation Undecodable n = Inl UnicodeDecodeError"
| "on_file operation (Readable f) n =
     Inr (operation \<lparr>data_file = f, lock_acquisitions = n\<rparr>)"

section \<open>Bindings\<close>

definition get_binding :: "string \<Rightarrow> store \<Rightarrow> string option \<times> store" where
  "get_binding qq_number =
     with_lock (\<lambda>data. (get_dict (bindings data) qq_number, None))"

definition get_qq_by_username :: "string \<Rightarrow> store \<Rightarrow> string option \<times> store" where
  "get_qq_by_username uname =
     with_lock (\<lambda>data. (get_dict (user_qq_map data) uname, None))"

text \<open>
  \<open>if old: d.pop(old, None)\<close> for an \<open>old\<close> that came from \<open>dict.get\<close>: the key is
  removed when \<open>old\<close> is neither \<open>None\<close> nor the empty string.
\<close>

fun pop_if_truthy :: "string option \<Rightarrow> (string \<rightharpoonup> 'v) \<Rightarrow> (string \<rightharpoonup> 'v)" where
  "pop_if_truthy None d = d"
| "pop_if_truthy (Some old) d = (if old \<noteq> [] then d(old := None) else d)"

text \<open>
  The body of \<open>set_binding\<close>.  The second lookup reads \<open>user_qq_map\<close> after the first
  removal.
\<close>

definition set_binding_body :: "string \<Rightarrow> string \<Rightarrow> document \<Rightarrow> document" where
  "set_binding_body qq_number uname data =
     (let b0 = get_dict (bindings data);
          m0 = get_dict (user_qq_map data);
          old_username = b0 qq_number;
          m1 = pop_if_truthy old_username m0;
          old_qq = m1 uname;
          b1 = pop_if_truthy old_qq b0
      in data\<lparr>bindings := Some (b1(qq_number \<mapsto> uname)),
              user_qq_map := Some (m1(uname \<mapsto> qq_number))\<rparr>)"

definition set_binding :: "string \<Rightarrow> string \<Rightarrow> store \<Rightarrow> unit \<times> store" where
  "set_binding qq_number uname =
     with_lock (\<lambda>data. ((), Some (set_binding_body qq_number uname data)))"

section \<open>Pending bindings\<close>

text \<open>The two settings of the configuration module (config\_example.py), in seconds.\<close>

definition VERIFICATION_TIMEOUT :: real where
  "VERIFICATION_TIMEOUT = 300"

definition BIND_COOLDOWN :: real where
  "BIND_COOLDOWN = 60"

text \<open>Python's \<open>int(x)\<close> on a float truncates towards zero.\<close>

definition py_int :: "real \<Rightarrow> int" where
  "py_int x = (if 0 \<le> x then \<lfloor>x\<rfloor> else \<lceil>x\<rceil>)"

text \<open>Python's \<open>str(n)\<close> on an integer: the decimal digits, with a sign if negative.\<close>

definition digit_char :: "nat \<Rightarrow> char" where
  "digit_char n = ''0123456789'' ! (n mod 10)"

fun str_nat :: "nat \<Rightarrow> string" where
  "str_nat n = (if n < 10 then [digit_char n] else str_nat (n div 10) @ [digit_char n])"

declare str_nat.simps [simp del]

definition str_int :: "int \<Rightarrow> string" where
  "str_int i = (if i < 0 then CHR ''-'' # str_nat (nat (- i)) else str_nat (nat i))"

text \<open>
  \<open>check_bind_cooldown\<close>; \<open>now\<close> is the value of its call of \<open>time.time()\<close>.  A
  pending entry is a non-empty dictionary, so \<open>if pending:\<close> tests its presence.
\<close>

definition check_bind_cooldown :: "string \<Rightarrow> real \<Rightarrow> store \<Rightarrow> (bool \<times> int) \<times> store" where
  "check_bind_cooldown qq_number now =
     with_lock (\<lambda>data.
       (case get_dict (pending_bindings data) qq_number of
          None \<Rightarrow> (True, 0)
        | Some pending \<Rightarrow>
            (let elapsed = now - request_time pending
             in if elapsed < BIND_COOLDOWN then (False, py_int (BIND_COOLDOWN - elapsed))
                else (True, 0)),
        None))"

text \<open>
  \<open>create_pending_binding\<close>; \<open>r\<close> is the value of \<open>random.randint(100000, 999999)\<close>,
  \<open>t1\<close> and \<open>t2\<close> are the values of its two calls of \<open>time.time()\<close>, in this order.
\<close>

definition create_pending_binding ::
    "string \<Rightarrow> string \<Rightarrow> int \<Rightarrow> real \<Rightarrow> real \<Rightarrow> store \<Rightarrow> string \<times> store" where
  "create_pending_binding qq_number uname r t1 t2 =
     (let c = str_int r;
          expire = t1 + VERIFICATION_TIMEOUT;
          request = t2
      in with_lock (\<lambda>data.
           (c, Some (data\<lparr>pending_bindings :=
                  Some ((get_dict (pending_bindings data))(qq_number \<mapsto>
                    \<lparr>username = uname, code = c,
                     expire_time = expire, request_time = request\<rparr>))\<rparr>))))"

text \<open>
  The four messages \<open>verify_binding\<close> returns; the last one carries the user name it
  is formatted with.
\<close>

datatype message = NoPendingRequest | Expired | CodeMismatch | BindingSucceeded string

text \<open>
  The \<open>with self.lock:\<close> block of \<open>verify_binding\<close>: \<open>Inl\<close> a failure message
  (returned from inside the block), \<open>Inr\<close> the user name the block ends with.
\<close>

definition verify_binding_locked ::
    "string \<Rightarrow> string \<Rightarrow> real \<Rightarrow> document \<Rightarrow> (message + string) \<times> document option" where
  "verify_binding_locked qq_number c now data =
     (case get_dict (pending_bindings data) qq_number of
        None \<Rightarrow> (Inl NoPendingRequest, None)
      | Some pending \<Rightarrow>
          if now > expire_time pending then
            (Inl Expired,
             Some (data\<lparr>pending_bindings :=
                     Some ((get_dict (pending_bindings data))(qq_number := None))\<rparr>))
          else if code pending \<noteq> c then (Inl CodeMismatch, None)
          else
            (Inr (username pending),
             Some (data\<lparr>pending_bindings :=
                     Some ((get_dict (pending_bindings data))(qq_number := None))\<rparr>)))"

text \<open>
  \<open>verify_binding\<close>: after the block, and with the lock released, it calls
  \<open>self.set_binding\<close>, which takes the lock again.
\<close>

definition verify_binding ::
    "string \<Rightarrow> string \<Rightarrow> real \<Rightarrow> store \<Rightarrow> (bool \<times> message) \<times> store" where
  "verify_binding qq_number c now s =
     (case with_lock (verify_binding_locked qq_number c now) s of
        (Inl msg, s1) \<Rightarrow> ((False, msg), s1)
      | (Inr uname, s1) \<Rightarrow>
          (case set_binding qq_number uname s1 of
             (_, s2) \<Rightarrow> ((True, BindingSucceeded uname), s2)))"

text \<open>
  The part of \<open>MessageHandler._handle_bind\<close> (qq\_bot.py) that works on the data
  manager: the cooldown check, then the creation of the pending entry.  \<open>t0\<close> is the
  clock value read by the check.  The request to the server and the messages sent to
  the user are not modelled.
\<close>

datatype bind_outcome = TooFrequent int | CodeCreated string

definition handle_bind ::
    "string \<Rightarrow> string \<Rightarrow> int \<Rightarrow> real \<Rightarrow> real \<Rightarrow> real \<Rightarrow> store \<Rightarrow> bind_outcome \<times> store" where
  "handle_bind qq_number uname r t0 t1 t2 s =
     (case check_bind_cooldown qq_number t0 s of
        ((can_request, remaining), s1) \<Rightarrow>
          if \<not> can_request then (TooFrequent remaining, s1)
          else (case create_pending_binding qq_number uname r t1 t2 s1 of
                  (c, s2) \<Rightarrow> (CodeCreated c, s2)))"

section \<open>Notification preference and groups\<close>

definition set_notification_group :: "string \<Rightarrow> string \<Rightarrow> store \<Rightarrow> unit \<times> store" where
  "set_notification_group qq_number group_id =
     with_lock (\<lambda>data.
       ((), Some (data\<lparr>notifications :=
                    Some ((get_dict (notifications data))(qq_number \<mapsto> group_id))\<rparr>)))"

definition get_notification_group :: "string \<Rightarrow> store \<Rightarrow> string option \<times> store" where
  "get_notification_group qq_number =
     with_lock (\<lambda>data. (get_dict (notifications data) qq_number, None))"

definition add_group :: "string \<Rightarrow> store \<Rightarrow> unit \<times> store" where
  "add_group group_id =
     with_lock (\<lambda>data.
       (let gs = get_list (groups data)
        in if group_id \<notin> set gs then ((), Some (data\<lparr>groups := Some (gs @ [group_id])\<rparr>))
           else ((), None)))"

definition remove_group :: "string \<Rightarrow> store \<Rightarrow> unit \<times> store" where
  "remove_group group_id =
     with_lock (\<lambda>data.
       (let gs = get_list (groups data)
        in if group_id \<in> set gs then ((), Some (data\<lparr>groups := Some (remove1 group_id gs)\<rparr>))
           else ((), None)))"

definition get_groups :: "store \<Rightarrow> string list \<times> store" where
  "get_groups = with_lock (\<lambda>data. (get_list (groups data), None))"

text \<open>
  \<open>WebhookHandler._find_notification_group\<close> (qq\_bot.py).  The membership query
  \<open>QQBotAPI.is_user_in_group(group_id, qq_number)\<close> asks the chat client and is a
  parameter.  The result \<open>None\<close> stands for the private chat.  \<open>scan_groups\<close> is the
  \<open>for\<close> loop over the stored groups.
\<close>

fun scan_groups :: "(string \<Rightarrow> bool) \<Rightarrow> string list \<Rightarrow> string option" where
  "scan_groups member [] = None"
| "scan_groups member (group_id # rest) =
     (if member group_id then Some group_id else scan_groups member rest)"

definition find_notification_group ::
    "(string \<Rightarrow> string \<Rightarrow> bool) \<Rightarrow> string \<Rightarrow> store \<Rightarrow> string option \<times> store" where
  "find_notification_group is_user_in_group qq_number s =
     (case get_notification_group qq_number s of
        (preferred, s1) \<Rightarrow>
          if preferred = Some ''private'' then (None, s1)
          else if truthy preferred \<and> is_user_in_group (the preferred) qq_number
               then (preferred, s1)
          else (case get_groups s1 of
                  (gs, s2) \<Rightarrow> (scan_groups (\<lambda>g. is_user_in_group g qq_number) gs, s2)))"

section \<open>Views of the store used in the statements\<close>

text \<open>The store after \<open>DataManager.__init__\<close> on a path with no file.\<close>

definition fresh_store :: store where
  "fresh_store = \<lparr>data_file = FileJson default_document, lock_acquisitions = 0\<rparr>"

definition bindings_of :: "store \<Rightarrow> (string \<rightharpoonup> string)" where
  "bindings_of s = get_dict (bindings (load_text (data_file s)))"

definition user_qq_map_of :: "store \<Rightarrow> (string \<rightharpoonup> string)" where
  "user_qq_map_of s = get_dict (user_qq_map (load_text (data_file s)))"

definition pending_of :: "store \<Rightarrow> (string \<rightharpoonup> pending_binding)" where
  "pending_of s = get_dict (pending_bindings (load_text (data_file s)))"

definition notifications_of :: "store \<Rightarrow> (string \<rightharpoonup> string)" where
  "notifications_of s = get_dict (notifications (load_text (data_file s)))"

definition groups_of :: "store \<Rightarrow> string list" where
  "groups_of s = get_list (groups (load_text (data_file s)))"

text \<open>A chat client that reports the user as a member of every group.\<close>

definition member_of_every_group :: "string \<Rightarrow> string \<Rightarrow> bool" where
  "member_of_every_group group_id qq_number = True"

text \<open>A sequence of calls of \<open>set_binding\<close>, first call first.\<close>

fun set_bindings :: "(string \<times> string) list \<Rightarrow> store \<Rightarrow> store" where
  "set_bindings [] s = s"
| "set_bindings ((qq_number, uname) # rest) s =
     set_bindings rest (snd (set_binding qq_number uname s))"

text \<open>
  The two dictionaries are inverse to each other, and no bound QQ number or user name
  is the empty string.
\<close>

definition paired :: "(string \<rightharpoonup> string) \<Rightarrow> (string \<rightharpoonup> string) \<Rightarrow> bool" where
  "paired b m \<longleftrightarrow>
     (\<forall>q u. b q = Some u \<longleftrightarrow> m u = Some q) \<and>
     (\<forall>q u. b q = Some u \<longrightarrow> q \<noteq> [] \<and> u \<noteq> [])"

text \<open>
  Reading a decimal string back: the value of a digit character and of a digit string.
\<close>

definition digit_val :: "char \<Rightarrow> nat" where
  "digit_val c = of_char c - 48"

definition nat_of_str :: "string \<Rightarrow> nat" where
  "nat_of_str cs = foldl (\<lambda>a c. 10 * a + digit_val c) 0 cs"

section \<open>One locked block\<close>

lemma fst_with_lock: "fst (with_lock body s) = fst (body (load_text (data_file s)))"
  by (simp add: with_lock_def split: prod.splits option.splits)

lemma file_with_lock:
  "data_file (snd (with_lock body s)) =
     (case snd (body (load_text (data_file s))) of None \<Rightarrow> data_file s | Some d \<Rightarrow> FileJson d)"
  by (simp add: with_lock_def save_def save_steps_def split: prod.splits option.splits)

lemma locks_with_lock:
  "lock_acquisitions (snd (with_lock body s)) = Suc (lock_acquisitions s)"
  by (simp add: with_lock_def split: prod.splits option.splits)

lemma get_binding_fst: "fst (get_binding q s) = bindings_of s q"
  by (simp add: get_binding_def fst_with_lock bindings_of_def)

lemma get_qq_by_username_fst: "fst (get_qq_by_username u s) = user_qq_map_of s u"
  by (simp add: get_qq_by_username_def fst_with_lock user_qq_map_of_def)

lemma get_binding_file: "data_file (snd (get_binding q s)) = data_file s"
  by (simp add: get_binding_def file_with_lock)

lemma get_qq_by_username_file: "data_file (snd (get_qq_by_username u s)) = data_file s"
  by (simp add: get_qq_by_username_def file_with_lock)

section \<open>Bindings: the two dictionaries under \<open>set_binding\<close>\<close>

lemma bindings_of_set_binding:
  "bindings_of (snd (set_binding q u s)) =
     (pop_if_truthy (pop_if_truthy (bindings_of s q) (user_qq_map_of s) u) (bindings_of s))(q \<mapsto> u)"
  by (simp add: set_binding_def file_with_lock bindings_of_def user_qq_map_of_def
      set_binding_body_def Let_def get_dict_def)

lemma user_qq_map_of_set_binding:
  "user_qq_map_of (snd (set_binding q u s)) =
     (pop_if_truthy (bindings_of s q) (user_qq_map_of s))(u \<mapsto> q)"
  by (simp add: set_binding_def file_with_lock bindings_of_def user_qq_map_of_def
      set_binding_body_def Let_def get_dict_def)

lemma fresh_store_maps:
  "bindings_of fresh_store = Map.empty" "user_qq_map_of fresh_store = Map.empty"
  by (simp_all add: bindings_of_def user_qq_map_of_def fresh_store_def default_document_def
      get_dict_def)

text \<open>
  With non-empty strings, one call of \<open>set_binding\<close> keeps the two dictionaries inverse
  to each other.
\<close>

lemma paired_set_binding:
  assumes "paired (bindings_of s) (user_qq_map_of s)" and "q \<noteq> []" and "u \<noteq> []"
  shows "paired (bindings_of (snd (set_binding q u s))) (user_qq_map_of (snd (set_binding q u s)))"
proof -
  define b where "b = bindings_of s"
  define m where "m = user_qq_map_of s"
  from assms(1) have fwd: "\<And>x y. b x = Some y \<Longrightarrow> m y = Some x"
    and bwd: "\<And>x y. m y = Some x \<Longrightarrow> b x = Some y"
    and ne: "\<And>x y. b x = Some y \<Longrightarrow> x \<noteq> [] \<and> y \<noteq> []"
    by (simp_all add: paired_def b_def m_def)
  define m1 where "m1 = pop_if_truthy (b q) m"
  define b1 where "b1 = pop_if_truthy (m1 u) b"
  have m1: "m1 y = Some x \<longleftrightarrow> m y = Some x \<and> x \<noteq> q" for x y
  proof (cases "b q")
    case None
    have "x \<noteq> q" if "m y = Some x" using bwd [OF that] None by auto
    then show ?thesis by (auto simp: m1_def None)
  next
    case (Some u')
    then have u': "u' \<noteq> []" using ne by blast
    have mu': "m u' = Some q" using Some by (rule fwd)
    show ?thesis
    proof (cases "y = u'")
      case True
      then show ?thesis using u' mu' by (simp add: m1_def Some)
    next
      case False
      have "x \<noteq> q" if "m y = Some x"
      proof
        assume "x = q"
        with that have "b q = Some y" by (simp add: bwd)
        with Some False show False by simp
      qed
      then show ?thesis using u' False by (auto simp: m1_def Some)
    qed
  qed
  have b1: "b1 x = Some y \<longleftrightarrow> b x = Some y \<and> (y \<noteq> u \<or> x = q)" for x y
  proof (cases "m1 u")
    case None
    then have "m u = None \<or> m u = Some q"
      using m1 [of u] by (cases "m u") auto
    then have "x = q" if "b x = Some u" using fwd [OF that] by auto
    then show ?thesis by (auto simp: b1_def None)
  next
    case (Some q')
    then have q': "m u = Some q'" "q' \<noteq> q" using m1 by auto
    then have ne': "q' \<noteq> []" using bwd ne by blast
    have bq': "b q' = Some u" using q'(1) by (rule bwd)
    show ?thesis
    proof (cases "x = q'")
      case True
      then show ?thesis using ne' bq' q'(2) by (simp add: b1_def Some)
    next
      case False
      have "y \<noteq> u" if "b x = Some y"
      proof
        assume "y = u"
        with that have "m u = Some x" by (simp add: fwd)
        with q'(1) False show False by simp
      qed
      then show ?thesis using ne' False by (auto simp: b1_def Some)
    qed
  qed
  have "(b1(q \<mapsto> u)) x = Some y \<longleftrightarrow> (m1(u \<mapsto> q)) y = Some x" for x y
  proof -
    have "b x = Some y \<longleftrightarrow> m y = Some x" using fwd bwd by blast
    then show ?thesis using m1 [of y x] b1 [of x y] by auto
  qed
  moreover have "(b1(q \<mapsto> u)) x = Some y \<longrightarrow> x \<noteq> [] \<and> y \<noteq> []" for x y
    using b1 [of x y] ne assms(2,3) by (auto split: if_splits)
  ultimately show ?thesis
    unfolding paired_def bindings_of_set_binding user_qq_map_of_set_binding
      b_def[symmetric] m_def[symmetric] m1_def[symmetric] b1_def[symmetric]
    by blast
qed

lemma paired_set_bindings:
  assumes "paired (bindings_of s) (user_qq_map_of s)"
    and "\<forall>(q, u) \<in> set ops. q \<noteq> [] \<and> u \<noteq> []"
  shows "paired (bindings_of (set_bindings ops s)) (user_qq_map_of (set_bindings ops s))"
  using assms
proof (induction ops arbitrary: s)
  case Nil
  then show ?case by simp
next
  case (Cons op ops)
  obtain q u where op: "op = (q, u)" by (cases op)
  from Cons.prems(2) op have ne: "q \<noteq> []" "u \<noteq> []" by auto
  have "paired (bindings_of (snd (set_binding q u s))) (user_qq_map_of (snd (set_binding q u s)))"
    using Cons.prems(1) ne by (rule paired_set_binding)
  moreover from Cons.prems(2) have "\<forall>(q, u) \<in> set ops. q \<noteq> [] \<and> u \<noteq> []" by simp
  ultimately show ?case using Cons.IH op by simp
qed

text \<open>
  Started from the fresh store, any sequence of calls of \<open>set_binding\<close> with non-empty
  QQ numbers and user names leaves the two lookups inverse to each other.
\<close>

lemma set_bindings_lookups_inverse:
  assumes "\<forall>(q, u) \<in> set ops. q \<noteq> [] \<and> u \<noteq> []"
  shows "fst (get_binding q (set_bindings ops fresh_store)) = Some u \<longleftrightarrow>
         fst (get_qq_by_username u (set_bindings ops fresh_store)) = Some q"
proof -
  have "paired (bindings_of fresh_store) (user_qq_map_of fresh_store)"
    by (simp add: paired_def fresh_store_maps)
  from paired_set_bindings [OF this assms] show ?thesis
    by (simp add: paired_def get_binding_fst get_qq_by_username_fst)
qed

lemmas binding_lookups = get_binding_fst get_qq_by_username_fst bindings_of_set_binding
  user_qq_map_of_set_binding fresh_store_maps

text \<open>
  Claim C1 (the two lookups stay inverse to each other under every sequence of calls of
  \<open>set_binding\<close>, and rebinding a QQ number removes its old pair).  The removal of the
  old pair is skipped when the old value is the empty string.  From the fresh store,
  \<open>set_binding("X", "")\<close> followed by \<open>set_binding("X", "B")\<close> leaves the user name
  \<open>""\<close> mapped to \<open>X\<close> although \<open>X\<close> is now bound to \<open>B\<close>; and
  \<open>set_binding("", "bob")\<close> followed by \<open>set_binding("Q1", "bob")\<close> leaves the QQ
  number \<open>""\<close> bound to \<open>bob\<close> although \<open>bob\<close> now maps to \<open>Q1\<close>.  With non-empty
  strings the claim holds (\<open>set_bindings_lookups_inverse\<close>).
\<close>

theorem set_binding_empty_string_keeps_stale_pair:
  "fst (get_binding ''X'' (set_bindings [(''X'', '''')] fresh_store)) = Some '''' \<and>
   fst (get_qq_by_username '''' (set_bindings [(''X'', ''''), (''X'', ''B'')] fresh_store)) = Some ''X'' \<and>
   fst (get_binding ''X'' (set_bindings [(''X'', ''''), (''X'', ''B'')] fresh_store)) = Some ''B'' \<and>
   fst (get_binding '''' (set_bindings [('''', ''bob''), (''Q1'', ''bob'')] fresh_store)) = Some ''bob'' \<and>
   fst (get_qq_by_username ''bob'' (set_bindings [('''', ''bob''), (''Q1'', ''bob'')] fresh_store)) = Some ''Q1''"
  by (simp add: binding_lookups)

text \<open>
  Claim C10 (the removal of the stale half of a pair is guarded by truthiness, not by
  presence).  When \<open>X\<close> is rebound from \<open>A\<close> to another name \<open>B\<close>, the reverse entry
  of \<open>A\<close> is removed if \<open>A\<close> is non-empty and left as it was if \<open>A\<close> is the empty
  string.  When \<open>B\<close> was mapped to another QQ number \<open>Y\<close>, the forward entry of \<open>Y\<close>
  is removed if \<open>Y\<close> is non-empty and left as it was otherwise.  In particular, if
  \<open>X\<close> was bound to the empty user name, the entry from \<open>""\<close> to \<open>X\<close> is still there
  after \<open>X\<close> is rebound.
\<close>

theorem set_binding_cleanup_by_truthiness:
  "(fst (get_binding X s) = Some A \<and> A \<noteq> B \<longrightarrow>
      fst (get_qq_by_username A (snd (set_binding X B s))) =
        (if A = [] then fst (get_qq_by_username A s) else None)) \<and>
   (fst (get_qq_by_username B s) = Some Y \<and> Y \<noteq> X \<and> fst (get_binding X s) \<noteq> Some B \<longrightarrow>
      fst (get_binding Y (snd (set_binding X B s))) =
        (if Y = [] then fst (get_binding Y s) else None)) \<and>
   (fst (get_binding X s) = Some [] \<and> fst (get_qq_by_username [] s) = Some X \<and> B \<noteq> [] \<longrightarrow>
      fst (get_qq_by_username [] (snd (set_binding X B s))) = Some X \<and>
      fst (get_binding X (snd (set_binding X B s))) = Some B)"
proof (intro conjI impI)
  assume "fst (get_binding X s) = Some A \<and> A \<noteq> B"
  then show "fst (get_qq_by_username A (snd (set_binding X B s))) =
        (if A = [] then fst (get_qq_by_username A s) else None)"
    by (simp add: get_binding_fst get_qq_by_username_fst user_qq_map_of_set_binding)
next
  assume h: "fst (get_qq_by_username B s) = Some Y \<and> Y \<noteq> X \<and> fst (get_binding X s) \<noteq> Some B"
  then have "pop_if_truthy (bindings_of s X) (user_qq_map_of s) B = Some Y"
    by (cases "bindings_of s X") (auto simp: get_binding_fst get_qq_by_username_fst)
  with h show "fst (get_binding Y (snd (set_binding X B s))) =
        (if Y = [] then fst (get_binding Y s) else None)"
    by (simp add: get_binding_fst bindings_of_set_binding)
next
  assume "fst (get_binding X s) = Some [] \<and> fst (get_qq_by_username [] s) = Some X \<and> B \<noteq> []"
  then show "fst (get_qq_by_username [] (snd (set_binding X B s))) = Some X"
    by (simp add: get_binding_fst get_qq_by_username_fst user_qq_map_of_set_binding)
next
  show "fst (get_binding X (snd (set_binding X B s))) = Some B"
    by (simp add: get_binding_fst bindings_of_set_binding)
qed

theorem set_binding_cleanup_by_truthiness_witness:
  "(fst (get_binding ''X'' (set_bindings [(''X'', ''''), (''Y'', ''B'')] fresh_store)) = Some '''' \<and>
    fst (get_qq_by_username ''B'' (set_bindings [(''X'', ''''), (''Y'', ''B'')] fresh_store)) = Some ''Y'' \<and>
    fst (get_qq_by_username '''' (set_bindings [(''X'', ''''), (''Y'', ''B'')] fresh_store)) = Some ''X'' \<and>
    fst (get_qq_by_username ''''
      (snd (set_binding ''X'' ''B'' (set_bindings [(''X'', ''''), (''Y'', ''B'')] fresh_store)))) = Some ''X'' \<and>
    fst (get_binding ''Y''
      (snd (set_binding ''X'' ''B'' (set_bindings [(''X'', ''''), (''Y'', ''B'')] fresh_store)))) = None \<and>
    fst (get_binding ''X''
      (snd (set_binding ''X'' ''B'' (set_bindings [(''X'', ''''), (''Y'', ''B'')] fresh_store)))) = Some ''B'') \<and>
   (fst (get_binding ''X'' (set_bindings [(''X'', ''A'')] fresh_store)) = Some ''A'' \<and>
    fst (get_qq_by_username ''A''
      (snd (set_binding ''X'' ''B'' (set_bindings [(''X'', ''A'')] fresh_store)))) = None)"
proof -
  let ?s = "set_bindings [(''X'', ''''), (''Y'', ''B'')] fresh_store"
  let ?t = "set_bindings [(''X'', ''A'')] fresh_store"
  have h1: "fst (get_binding ''X'' ?s) = Some ''''" by (simp add: binding_lookups)
  have h2: "fst (get_qq_by_username ''B'' ?s) = Some ''Y''" by (simp add: binding_lookups)
  have h3: "fst (get_qq_by_username '''' ?s) = Some ''X''" by (simp add: binding_lookups)
  have h4: "fst (get_binding ''X'' ?t) = Some ''A''" by (simp add: binding_lookups)
  from set_binding_cleanup_by_truthiness [of "''X''" ?s "''''" "''B''" "''Y''"] h1 h2 h3
    set_binding_cleanup_by_truthiness [of "''X''" ?t "''A''" "''B''" "''Y''"] h4
  show ?thesis by simp
qed

section \<open>Decimal strings\<close>

lemma digit_char_cases:
  assumes "k < 10"
  shows "''0123456789'' ! k \<in> set ''0123456789'' \<and> digit_val (''0123456789'' ! k) = k"
proof -
  from assms have "k = 0 \<or> k = 1 \<or> k = 2 \<or> k = 3 \<or> k = 4 \<or> k = 5 \<or> k = 6
      \<or> k = 7 \<or> k = 8 \<or> k = 9"
    by presburger
  then show ?thesis by (elim disjE) (simp_all add: digit_val_def)
qed

lemma digit_char_digit: "digit_char n \<in> set ''0123456789''"
  unfolding digit_char_def using digit_char_cases [of "n mod 10"] by simp

lemma digit_val_digit_char: "digit_val (digit_char n) = n mod 10"
  unfolding digit_char_def using digit_char_cases [of "n mod 10"] by simp

lemma str_nat_digits: "set (str_nat n) \<subseteq> set ''0123456789''"
proof (induction n rule: str_nat.induct)
  case (1 n)
  show ?case
  proof (cases "n < 10")
    case True
    then show ?thesis using digit_char_digit [of n] by (subst str_nat.simps) simp
  next
    case False
    then show ?thesis using 1 digit_char_digit [of n] by (subst str_nat.simps) simp
  qed
qed

lemma nat_of_str_snoc: "nat_of_str (cs @ [c]) = 10 * nat_of_str cs + digit_val c"
  by (simp add: nat_of_str_def)

lemma nat_of_str_str_nat: "nat_of_str (str_nat n) = n"
proof (induction n rule: str_nat.induct)
  case (1 n)
  show ?case
  proof (cases "n < 10")
    case True
    then show ?thesis
      by (subst str_nat.simps) (simp add: nat_of_str_def digit_val_digit_char)
  next
    case False
    then show ?thesis using 1
      by (subst str_nat.simps) (simp add: nat_of_str_snoc digit_val_digit_char)
  qed
qed

lemma length_str_nat: "10 ^ k \<le> n \<Longrightarrow> n < 10 ^ Suc k \<Longrightarrow> length (str_nat n) = Suc k"
proof (induction k arbitrary: n)
  case 0
  then show ?case by (subst str_nat.simps) simp
next
  case (Suc k)
  have "(10::nat) \<le> 10 * 10 ^ k" by simp
  also have "\<dots> \<le> n" using Suc.prems(1) by simp
  finally have "\<not> n < 10" by simp
  moreover have "10 ^ k \<le> n div 10" using Suc.prems(1) by (simp add: less_eq_div_iff_mult_less_eq)
  moreover have "n div 10 < 10 ^ Suc k" using Suc.prems(2) by (simp add: div_less_iff_less_mult)
  ultimately show ?case using Suc.IH [of "n div 10"] by (subst str_nat.simps) simp
qed

lemma str_int_six_digits:
  assumes "100000 \<le> r" and "r \<le> 999999"
  shows "length (str_int r) = 6" and "set (str_int r) \<subseteq> set ''0123456789''"
    and "int (nat_of_str (str_int r)) = r"
proof -
  have r: "str_int r = str_nat (nat r)" using assms by (simp add: str_int_def)
  have "10 ^ 5 \<le> nat r" "nat r < 10 ^ Suc 5" using assms by simp_all
  from length_str_nat [OF this] show "length (str_int r) = 6" by (simp add: r)
  show "set (str_int r) \<subseteq> set ''0123456789''" unfolding r by (rule str_nat_digits)
  show "int (nat_of_str (str_int r)) = r" using assms by (simp add: r nat_of_str_str_nat)
qed

section \<open>Pending bindings: cooldown, creation, verification\<close>

lemma check_bind_cooldown_fst:
  "fst (check_bind_cooldown qq now s) =
     (case pending_of s qq of
        None \<Rightarrow> (True, 0)
      | Some p \<Rightarrow> if now - request_time p < BIND_COOLDOWN
                  then (False, py_int (BIND_COOLDOWN - (now - request_time p)))
                  else (True, 0))"
  by (simp add: check_bind_cooldown_def fst_with_lock pending_of_def Let_def split: option.splits)

lemma check_bind_cooldown_file: "data_file (snd (check_bind_cooldown qq now s)) = data_file s"
  by (simp add: check_bind_cooldown_def file_with_lock)

lemma create_pending_binding_fst: "fst (create_pending_binding qq u r t1 t2 s) = str_int r"
  by (simp add: create_pending_binding_def Let_def fst_with_lock)

lemma pending_of_create_pending_binding:
  "pending_of (snd (create_pending_binding qq u r t1 t2 s)) =
     (pending_of s)(qq \<mapsto> \<lparr>username = u, code = str_int r,
        expire_time = t1 + VERIFICATION_TIMEOUT, request_time = t2\<rparr>)"
  by (simp add: create_pending_binding_def Let_def file_with_lock pending_of_def get_dict_def)

lemma pending_of_file: "data_file s = data_file s' \<Longrightarrow> pending_of s = pending_of s'"
  by (simp add: pending_of_def)

lemma handle_bind_unfold:
  "handle_bind qq u r t0 t1 t2 s =
     (if \<not> fst (fst (check_bind_cooldown qq t0 s))
      then (TooFrequent (snd (fst (check_bind_cooldown qq t0 s))),
            snd (check_bind_cooldown qq t0 s))
      else (CodeCreated (fst (create_pending_binding qq u r t1 t2
                                (snd (check_bind_cooldown qq t0 s)))),
            snd (create_pending_binding qq u r t1 t2 (snd (check_bind_cooldown qq t0 s)))))"
  by (simp add: handle_bind_def split: prod.splits)

lemma pending_of_check_bind_cooldown:
  "pending_of (snd (check_bind_cooldown qq now s)) = pending_of s"
  by (rule pending_of_file) (rule check_bind_cooldown_file)

lemma handle_bind_fst:
  "fst (handle_bind qq u r t0 t1 t2 s) =
     (case pending_of s qq of
        None \<Rightarrow> CodeCreated (str_int r)
      | Some p \<Rightarrow> if t0 - request_time p < BIND_COOLDOWN
                  then TooFrequent (py_int (BIND_COOLDOWN - (t0 - request_time p)))
                  else CodeCreated (str_int r))"
  by (simp add: handle_bind_unfold check_bind_cooldown_fst create_pending_binding_fst
      split: option.splits)

lemma pending_of_handle_bind:
  "pending_of (snd (handle_bind qq u r t0 t1 t2 s)) =
     (if fst (fst (check_bind_cooldown qq t0 s))
      then (pending_of s)(qq \<mapsto> \<lparr>username = u, code = str_int r,
             expire_time = t1 + VERIFICATION_TIMEOUT, request_time = t2\<rparr>)
      else pending_of s)"
  by (simp add: handle_bind_unfold pending_of_create_pending_binding
      pending_of_check_bind_cooldown)

lemma pending_of_fresh_store: "pending_of fresh_store = Map.empty"
  by (simp add: pending_of_def fresh_store_def default_document_def get_dict_def)

lemma bindings_of_create_pending_binding:
  "bindings_of (snd (create_pending_binding qq u r t1 t2 s)) = bindings_of s"
  "user_qq_map_of (snd (create_pending_binding qq u r t1 t2 s)) = user_qq_map_of s"
  by (simp_all add: create_pending_binding_def Let_def file_with_lock bindings_of_def
      user_qq_map_of_def)

lemma verify_binding_unfold:
  "verify_binding qq c now s =
     (case pending_of s qq of
        None \<Rightarrow> ((False, NoPendingRequest), s\<lparr>lock_acquisitions := Suc (lock_acquisitions s)\<rparr>)
      | Some p \<Rightarrow>
          if expire_time p < now then
            ((False, Expired),
             \<lparr>data_file = FileJson ((load_text (data_file s))
                  \<lparr>pending_bindings := Some ((pending_of s)(qq := None))\<rparr>),
              lock_acquisitions = Suc (lock_acquisitions s)\<rparr>)
          else if code p \<noteq> c then
            ((False, CodeMismatch), s\<lparr>lock_acquisitions := Suc (lock_acquisitions s)\<rparr>)
          else
            ((True, BindingSucceeded (username p)),
             \<lparr>data_file = FileJson (set_binding_body qq (username p) ((load_text (data_file s))
                  \<lparr>pending_bindings := Some ((pending_of s)(qq := None))\<rparr>)),
              lock_acquisitions = Suc (Suc (lock_acquisitions s))\<rparr>))"
  by (simp add: verify_binding_def verify_binding_locked_def with_lock_def set_binding_def
      pending_of_def save_def save_steps_def split: option.splits)

lemmas pending_lookups = check_bind_cooldown_fst handle_bind_fst pending_of_handle_bind
  pending_of_create_pending_binding pending_of_fresh_store

text \<open>
  Claim C2 (the case analysis of \<open>verify_binding\<close>).  With no pending entry it
  returns the no-pending-request failure and does not write the file.  With an entry
  whose \<open>expire_time\<close> is before \<open>now\<close> it writes the document without the entry and
  returns the expired failure.  With a different code it returns the mismatch failure
  and does not write the file, so the entry stays.  Otherwise it writes the document
  without the entry, then \<open>set_binding\<close> binds the QQ number to the stored user name,
  and it returns success with that user name.
\<close>

theorem verify_binding_cases:
  "(pending_of s qq = None \<longrightarrow>
      fst (verify_binding qq c now s) = (False, NoPendingRequest) \<and>
      data_file (snd (verify_binding qq c now s)) = data_file s) \<and>
   (pending_of s qq = Some p \<and> expire_time p < now \<longrightarrow>
      fst (verify_binding qq c now s) = (False, Expired) \<and>
      data_file (snd (verify_binding qq c now s)) =
        FileJson ((load_text (data_file s))\<lparr>pending_bindings := Some ((pending_of s)(qq := None))\<rparr>) \<and>
      pending_of (snd (verify_binding qq c now s)) qq = None) \<and>
   (pending_of s qq = Some p \<and> \<not> expire_time p < now \<and> code p \<noteq> c \<longrightarrow>
      fst (verify_binding qq c now s) = (False, CodeMismatch) \<and>
      data_file (snd (verify_binding qq c now s)) = data_file s \<and>
      pending_of (snd (verify_binding qq c now s)) qq = Some p) \<and>
   (pending_of s qq = Some p \<and> \<not> expire_time p < now \<and> code p = c \<longrightarrow>
      fst (verify_binding qq c now s) = (True, BindingSucceeded (username p)) \<and>
      data_file (snd (verify_binding qq c now s)) =
        FileJson (set_binding_body qq (username p)
          ((load_text (data_file s))\<lparr>pending_bindings := Some ((pending_of s)(qq := None))\<rparr>)) \<and>
      pending_of (snd (verify_binding qq c now s)) qq = None \<and>
      fst (get_binding qq (snd (verify_binding qq c now s))) = Some (username p) \<and>
      fst (get_qq_by_username (username p) (snd (verify_binding qq c now s))) = Some qq)"
  by (simp add: verify_binding_unfold pending_of_def get_binding_fst get_qq_by_username_fst
      bindings_of_def user_qq_map_of_def set_binding_body_def Let_def get_dict_def)

theorem verify_binding_cases_witness:
  "fst (verify_binding ''Q'' ''000000'' 1100 fresh_store) = (False, NoPendingRequest) \<and>
   fst (verify_binding ''Q'' (str_int 123456) 1301
     (snd (create_pending_binding ''Q'' ''alice'' 123456 1000 1000 fresh_store))) = (False, Expired) \<and>
   pending_of (snd (verify_binding ''Q'' (str_int 123456) 1301
     (snd (create_pending_binding ''Q'' ''alice'' 123456 1000 1000 fresh_store)))) ''Q'' = None \<and>
   fst (verify_binding ''Q'' [] 1100
     (snd (create_pending_binding ''Q'' ''alice'' 123456 1000 1000 fresh_store))) = (False, CodeMismatch) \<and>
   fst (verify_binding ''Q'' (str_int 123456) 1100
     (snd (create_pending_binding ''Q'' ''alice'' 123456 1000 1000 fresh_store))) =
     (True, BindingSucceeded ''alice'') \<and>
   fst (get_binding ''Q'' (snd (verify_binding ''Q'' (str_int 123456) 1100
     (snd (create_pending_binding ''Q'' ''alice'' 123456 1000 1000 fresh_store))))) = Some ''alice''"
proof -
  let ?s1 = "snd (create_pending_binding ''Q'' ''alice'' 123456 1000 1000 fresh_store)"
  let ?p = "\<lparr>username = ''alice'', code = str_int 123456, expire_time = 1300, request_time = 1000\<rparr>"
  have p: "pending_of ?s1 ''Q'' = Some ?p"
    by (simp add: pending_lookups VERIFICATION_TIMEOUT_def)
  have n: "pending_of fresh_store ''Q'' = None" by (simp add: pending_of_fresh_store)
  have "length (str_int 123456) = 6" by (rule str_int_six_digits) simp_all
  then have c: "code ?p \<noteq> []" by auto
  have t: "expire_time ?p < 1301" "\<not> expire_time ?p < 1100" "code ?p = str_int 123456"
    "username ?p = ''alice''" by simp_all
  from verify_binding_cases [where s = fresh_store and qq = "''Q''" and c = "''000000''" and now = 1100] n
    verify_binding_cases [where s = ?s1 and qq = "''Q''" and p = ?p and now = 1301 and c = "str_int 123456"]
    verify_binding_cases [where s = ?s1 and qq = "''Q''" and p = ?p and now = 1100 and c = "[]"]
    verify_binding_cases [where s = ?s1 and qq = "''Q''" and p = ?p and now = 1100 and c = "str_int 123456"]
    p c t
  show ?thesis by simp
qed

text \<open>
  Claim C3, as the code has it: a request is allowed if and only if there is no pending
  entry for the QQ number or the entry was requested at least \<open>BIND_COOLDOWN\<close> (60)
  seconds before \<open>now\<close>; otherwise the request fails with the remaining seconds,
  \<open>int(BIND_COOLDOWN - elapsed)\<close>.  After a request that was allowed and stored its
  entry with request time \<open>t2\<close>, a second request for the same QQ number fails while
  less than 60 seconds have passed since \<open>t2\<close> and succeeds from 60 seconds on.
\<close>

theorem check_bind_cooldown_allowed_iff:
  "(fst (fst (check_bind_cooldown qq now s)) \<longleftrightarrow>
      pending_of s qq = None \<or>
      (\<exists>p. pending_of s qq = Some p \<and> BIND_COOLDOWN \<le> now - request_time p)) \<and>
   (pending_of s qq = Some p \<and> now - request_time p < BIND_COOLDOWN \<longrightarrow>
      fst (handle_bind qq u r now t1 t2 s) =
        TooFrequent (py_int (BIND_COOLDOWN - (now - request_time p)))) \<and>
   (fst (fst (check_bind_cooldown qq now s)) \<longrightarrow>
      (now' - t2 < BIND_COOLDOWN \<longrightarrow>
         fst (handle_bind qq u' r' now' t1' t2' (snd (handle_bind qq u r now t1 t2 s))) =
           TooFrequent (py_int (BIND_COOLDOWN - (now' - t2)))) \<and>
      (BIND_COOLDOWN \<le> now' - t2 \<longrightarrow>
         fst (handle_bind qq u' r' now' t1' t2' (snd (handle_bind qq u r now t1 t2 s))) =
           CodeCreated (str_int r'))) \<and>
   BIND_COOLDOWN = 60"
  by (auto simp: check_bind_cooldown_fst handle_bind_fst pending_of_handle_bind BIND_COOLDOWN_def
      split: option.splits)

theorem check_bind_cooldown_allowed_iff_witness:
  "fst (handle_bind ''Q'' ''alice'' 123456 1000 1000 1000 fresh_store) = CodeCreated (str_int 123456) \<and>
   fst (handle_bind ''Q'' ''bob'' 654321 1030 1030 1030
     (snd (handle_bind ''Q'' ''alice'' 123456 1000 1000 1000 fresh_store))) = TooFrequent 30 \<and>
   fst (handle_bind ''Q'' ''bob'' 654321 1060 1060 1060
     (snd (handle_bind ''Q'' ''alice'' 123456 1000 1000 1000 fresh_store))) =
       CodeCreated (str_int 654321)"
proof -
  let ?s1 = "snd (handle_bind ''Q'' ''alice'' 123456 1000 1000 1000 fresh_store)"
  let ?p = "\<lparr>username = ''alice'', code = str_int 123456,
             expire_time = 1000 + VERIFICATION_TIMEOUT, request_time = 1000\<rparr>"
  have a: "fst (fst (check_bind_cooldown ''Q'' 1000 fresh_store))"
    by (simp add: pending_lookups)
  have p: "pending_of ?s1 ''Q'' = Some ?p \<and> 1030 - request_time ?p < BIND_COOLDOWN"
    by (simp add: pending_lookups BIND_COOLDOWN_def)
  have b: "(1030::real) - 1000 < BIND_COOLDOWN" "BIND_COOLDOWN \<le> (1060::real) - 1000"
    by (simp_all add: BIND_COOLDOWN_def)
  have i: "py_int (BIND_COOLDOWN - (1030 - 1000)) = 30"
    by (simp add: py_int_def BIND_COOLDOWN_def)
  note check_bind_cooldown_allowed_iff
    [of "''Q''" 1000 fresh_store ?p "''alice''" 123456 1000 1000 1030 "''bob''" 654321 1030 1030]
    check_bind_cooldown_allowed_iff
    [of "''Q''" 1000 fresh_store ?p "''alice''" 123456 1000 1000 1060 "''bob''" 654321 1060 1060]
    check_bind_cooldown_allowed_iff
    [of "''Q''" 1030 ?s1 ?p "''bob''" 654321 1030 1030]
    a p b i
  moreover have "fst (handle_bind ''Q'' ''alice'' 123456 1000 1000 1000 fresh_store) =
      CodeCreated (str_int 123456)"
    by (simp add: handle_bind_fst pending_of_fresh_store)
  ultimately show ?thesis by simp
qed

text \<open>
  Claim C3 as stated asks for more than 60 seconds.  An entry requested at time 1000 is
  exactly 60 seconds old at time 1060, which is not more than the cooldown, and the
  check allows the request.
\<close>

theorem check_bind_cooldown_boundary_counterexample:
  "map_option request_time
     (pending_of (snd (create_pending_binding ''Q'' ''alice'' 123456 1000 1000 fresh_store)) ''Q'')
     = Some 1000 \<and>
   \<not> (BIND_COOLDOWN < 1060 - 1000) \<and>
   fst (check_bind_cooldown ''Q'' 1060
     (snd (create_pending_binding ''Q'' ''alice'' 123456 1000 1000 fresh_store))) = (True, 0)"
  by (simp add: pending_lookups BIND_COOLDOWN_def)

text \<open>
  Claim C7 (a successful request stores a fresh entry and returns its code).  For a
  random value \<open>r\<close> between 100000 and 999999 the code is the six-digit decimal string of
  \<open>r\<close>; the entry stored for the QQ number, replacing any earlier one, holds the user
  name, the code, the expiry time 300 seconds after the first clock value and the second
  clock value as request time; the bindings are untouched; and when the cooldown check
  passes, \<open>handle_bind\<close> returns that code.  With both clock values equal to \<open>now\<close>
  the entry is the one of the claim.
\<close>

theorem create_pending_binding_entry:
  assumes "100000 \<le> r" and "r \<le> 999999"
  shows "fst (create_pending_binding qq u r t1 t2 s) = str_int r \<and>
    length (str_int r) = 6 \<and> set (str_int r) \<subseteq> set ''0123456789'' \<and>
    int (nat_of_str (str_int r)) = r \<and>
    pending_of (snd (create_pending_binding qq u r t1 t2 s)) =
      (pending_of s)(qq \<mapsto> \<lparr>username = u, code = str_int r,
         expire_time = t1 + 300, request_time = t2\<rparr>) \<and>
    bindings_of (snd (create_pending_binding qq u r t1 t2 s)) = bindings_of s \<and>
    user_qq_map_of (snd (create_pending_binding qq u r t1 t2 s)) = user_qq_map_of s \<and>
    (fst (fst (check_bind_cooldown qq t0 s)) \<longrightarrow>
       fst (handle_bind qq u r t0 t1 t2 s) = CodeCreated (str_int r) \<and>
       pending_of (snd (handle_bind qq u r t0 t1 t2 s)) qq =
         Some \<lparr>username = u, code = str_int r, expire_time = t1 + 300, request_time = t2\<rparr>)"
proof -
  have "fst (fst (check_bind_cooldown qq t0 s)) \<Longrightarrow>
      fst (handle_bind qq u r t0 t1 t2 s) = CodeCreated (str_int r)"
    by (simp add: handle_bind_unfold create_pending_binding_fst)
  then show ?thesis
    using str_int_six_digits [OF assms]
    by (simp add: create_pending_binding_fst pending_of_create_pending_binding
        bindings_of_create_pending_binding pending_of_handle_bind VERIFICATION_TIMEOUT_def)
qed

theorem create_pending_binding_entry_witness:
  "fst (create_pending_binding ''Q'' ''bob'' 654321 2000 2000
     (snd (create_pending_binding ''Q'' ''alice'' 123456 1000 1000 fresh_store))) = str_int 654321 \<and>
   length (str_int 654321) = 6 \<and>
   int (nat_of_str (str_int 654321)) = 654321 \<and>
   pending_of (snd (create_pending_binding ''Q'' ''bob'' 654321 2000 2000
     (snd (create_pending_binding ''Q'' ''alice'' 123456 1000 1000 fresh_store)))) ''Q'' =
     Some \<lparr>username = ''bob'', code = str_int 654321, expire_time = 2300, request_time = 2000\<rparr> \<and>
   fst (handle_bind ''Q'' ''bob'' 654321 2000 2000 2000
     (snd (create_pending_binding ''Q'' ''alice'' 123456 1000 1000 fresh_store))) =
     CodeCreated (str_int 654321)"
proof -
  let ?s1 = "snd (create_pending_binding ''Q'' ''alice'' 123456 1000 1000 fresh_store)"
  have r: "(100000::int) \<le> 654321" "(654321::int) \<le> 999999" by simp_all
  have a: "fst (fst (check_bind_cooldown ''Q'' 2000 ?s1))"
    by (simp add: pending_lookups BIND_COOLDOWN_def)
  from create_pending_binding_entry [OF r, of "''Q''" "''bob''" 2000 2000 ?s1 2000] a
  show ?thesis by simp
qed

text \<open>
  Claim C8 as stated (an entry past its expiry blocks every later request until a
  verification removes it) fails: the entry requested at 1000 expires at 1300, and at
  time 1301, with the entry still stored, the check allows the request and
  \<open>handle_bind\<close> issues a new code.
\<close>

theorem expired_entry_blocks_counterexample:
  "map_option expire_time
     (pending_of (snd (create_pending_binding ''Q'' ''alice'' 123456 1000 1000 fresh_store)) ''Q'')
     = Some 1300 \<and>
   fst (check_bind_cooldown ''Q'' 1301
     (snd (create_pending_binding ''Q'' ''alice'' 123456 1000 1000 fresh_store))) = (True, 0) \<and>
   fst (handle_bind ''Q'' ''alice'' 222222 1301 1301 1301
     (snd (create_pending_binding ''Q'' ''alice'' 123456 1000 1000 fresh_store))) =
     CodeCreated (str_int 222222)"
  by (simp add: pending_lookups BIND_COOLDOWN_def VERIFICATION_TIMEOUT_def)

text \<open>
  Claim C8, as the code has it: a stored entry blocks a request exactly while \<open>now\<close> is
  less than 60 seconds after its request time, whether it has expired or not.  If the
  expiry of the entry is at least 60 seconds after its request time, then a request made
  after the expiry is not blocked: the check allows it and \<open>handle_bind\<close> issues a new
  code.  If the second clock value of \<open>create_pending_binding\<close> is at most 240 seconds
  after the first, the entry it writes is of this kind; this is so when both values are
  the same \<open>now\<close>.
\<close>

theorem expired_entry_never_blocks:
  "(pending_of s qq = Some p \<longrightarrow>
      (\<not> fst (fst (check_bind_cooldown qq now s)) \<longleftrightarrow> now < request_time p + BIND_COOLDOWN) \<and>
      (request_time p + BIND_COOLDOWN \<le> expire_time p \<and> expire_time p < now \<longrightarrow>
         fst (check_bind_cooldown qq now s) = (True, 0) \<and>
         fst (handle_bind qq u r now t1 t2 s) = CodeCreated (str_int r))) \<and>
   (t2 \<le> t1 + 240 \<longrightarrow>
      (\<exists>e. pending_of (snd (create_pending_binding qq u r t1 t2 s)) qq = Some e \<and>
           expire_time e = t1 + 300 \<and> request_time e = t2 \<and>
           request_time e + BIND_COOLDOWN \<le> expire_time e))"
  by (auto simp: pending_lookups BIND_COOLDOWN_def VERIFICATION_TIMEOUT_def)

theorem expired_entry_never_blocks_witness:
  "pending_of (snd (create_pending_binding ''Q'' ''alice'' 123456 1000 1000 fresh_store)) ''Q'' =
     Some \<lparr>username = ''alice'', code = str_int 123456, expire_time = 1300, request_time = 1000\<rparr> \<and>
   fst (check_bind_cooldown ''Q'' 1301
     (snd (create_pending_binding ''Q'' ''alice'' 123456 1000 1000 fresh_store))) = (True, 0) \<and>
   fst (handle_bind ''Q'' ''bob'' 654321 1301 1301 1301
     (snd (create_pending_binding ''Q'' ''alice'' 123456 1000 1000 fresh_store))) =
     CodeCreated (str_int 654321)"
proof -
  let ?s1 = "snd (create_pending_binding ''Q'' ''alice'' 123456 1000 1000 fresh_store)"
  let ?p = "\<lparr>username = ''alice'', code = str_int 123456, expire_time = 1300, request_time = 1000\<rparr>"
  have p: "pending_of ?s1 ''Q'' = Some ?p"
    by (simp add: pending_lookups VERIFICATION_TIMEOUT_def)
  have h: "request_time ?p + BIND_COOLDOWN \<le> expire_time ?p \<and> expire_time ?p < 1301"
    "(1000::real) \<le> 1000 + 240"
    by (simp_all add: BIND_COOLDOWN_def)
  from expired_entry_never_blocks
    [where s = ?s1 and qq = "''Q''" and p = ?p and now = 1301 and u = "''bob''" and r = 654321
       and ?t1.0 = 1301 and ?t2.0 = 1301] p h
  show ?thesis by simp
qed

section \<open>Channel resolution\<close>

lemma get_notification_group_fst: "fst (get_notification_group qq s) = notifications_of s qq"
  by (simp add: get_notification_group_def fst_with_lock notifications_of_def)

lemma get_notification_group_file: "data_file (snd (get_notification_group qq s)) = data_file s"
  by (simp add: get_notification_group_def file_with_lock)

lemma get_groups_fst: "fst (get_groups s) = groups_of s"
  by (simp add: get_groups_def fst_with_lock groups_of_def)

lemma groups_of_file: "data_file s = data_file s' \<Longrightarrow> groups_of s = groups_of s'"
  by (simp add: groups_of_def)

lemma find_notification_group_unfold:
  "find_notification_group member qq s =
     (if fst (get_notification_group qq s) = Some ''private''
      then (None, snd (get_notification_group qq s))
      else if truthy (fst (get_notification_group qq s)) \<and>
              member (the (fst (get_notification_group qq s))) qq
      then (fst (get_notification_group qq s), snd (get_notification_group qq s))
      else (scan_groups (\<lambda>g. member g qq) (fst (get_groups (snd (get_notification_group qq s)))),
            snd (get_groups (snd (get_notification_group qq s)))))"
  by (simp add: find_notification_group_def split: prod.splits)

lemma find_notification_group_fst:
  "fst (find_notification_group member qq s) =
     (case notifications_of s qq of
        None \<Rightarrow> scan_groups (\<lambda>g. member g qq) (groups_of s)
      | Some g \<Rightarrow>
          if g = ''private'' then None
          else if g \<noteq> [] \<and> member g qq then Some g
          else scan_groups (\<lambda>g. member g qq) (groups_of s))"
proof -
  have "groups_of (snd (get_notification_group qq s)) = groups_of s"
    by (rule groups_of_file) (rule get_notification_group_file)
  then show ?thesis
    by (simp add: find_notification_group_unfold get_notification_group_fst get_groups_fst
        truthy_def split: option.splits)
qed

lemma scan_groups_None: "scan_groups P gs = None \<longleftrightarrow> (\<forall>g \<in> set gs. \<not> P g)"
  by (induction gs) auto

lemma scan_groups_Some:
  "scan_groups P gs = Some g \<longleftrightarrow>
     (\<exists>ys zs. gs = ys @ g # zs \<and> P g \<and> (\<forall>y \<in> set ys. \<not> P y))"
proof (induction gs)
  case Nil
  then show ?case by simp
next
  case (Cons x gs)
  show ?case
  proof (cases "P x")
    case True
    have "(\<exists>ys zs. x # gs = ys @ g # zs \<and> P g \<and> (\<forall>y \<in> set ys. \<not> P y)) \<longleftrightarrow> x = g"
    proof
      assume "\<exists>ys zs. x # gs = ys @ g # zs \<and> P g \<and> (\<forall>y \<in> set ys. \<not> P y)"
      then obtain ys zs where e: "x # gs = ys @ g # zs" and n: "\<forall>y \<in> set ys. \<not> P y" by blast
      show "x = g"
      proof (cases ys)
        case Nil
        with e show ?thesis by simp
      next
        case (Cons y ys')
        with e have "y = x" by simp
        with n Cons True show ?thesis by simp
      qed
    next
      assume "x = g"
      with True have "x # gs = [] @ g # gs \<and> P g \<and> (\<forall>y \<in> set []. \<not> P y)" by simp
      then show "\<exists>ys zs. x # gs = ys @ g # zs \<and> P g \<and> (\<forall>y \<in> set ys. \<not> P y)" by blast
    qed
    with True show ?thesis by simp
  next
    case False
    have "(\<exists>ys zs. x # gs = ys @ g # zs \<and> P g \<and> (\<forall>y \<in> set ys. \<not> P y)) \<longleftrightarrow>
          (\<exists>ys zs. gs = ys @ g # zs \<and> P g \<and> (\<forall>y \<in> set ys. \<not> P y))"
    proof
      assume "\<exists>ys zs. x # gs = ys @ g # zs \<and> P g \<and> (\<forall>y \<in> set ys. \<not> P y)"
      then obtain ys zs where e: "x # gs = ys @ g # zs" and p: "P g"
        and n: "\<forall>y \<in> set ys. \<not> P y" by blast
      show "\<exists>ys zs. gs = ys @ g # zs \<and> P g \<and> (\<forall>y \<in> set ys. \<not> P y)"
      proof (cases ys)
        case Nil
        with e p False show ?thesis by simp
      next
        case (Cons y ys')
        with e n p have "gs = ys' @ g # zs \<and> P g \<and> (\<forall>y \<in> set ys'. \<not> P y)" by simp
        then show ?thesis by blast
      qed
    next
      assume "\<exists>ys zs. gs = ys @ g # zs \<and> P g \<and> (\<forall>y \<in> set ys. \<not> P y)"
      then obtain ys zs where "gs = ys @ g # zs" "P g" "\<forall>y \<in> set ys. \<not> P y" by blast
      with False have "x # gs = (x # ys) @ g # zs \<and> P g \<and> (\<forall>y \<in> set (x # ys). \<not> P y)"
        by simp
      then show "\<exists>ys zs. x # gs = ys @ g # zs \<and> P g \<and> (\<forall>y \<in> set ys. \<not> P y)" by blast
    qed
    with False Cons.IH show ?thesis by simp
  qed
qed

lemma notifications_of_set_notification_group:
  "notifications_of (snd (set_notification_group q g s)) = (notifications_of s)(q \<mapsto> g)"
  by (simp add: set_notification_group_def file_with_lock notifications_of_def get_dict_def)

lemma groups_of_set_notification_group:
  "groups_of (snd (set_notification_group q g s)) = groups_of s"
  by (simp add: set_notification_group_def file_with_lock groups_of_def)

lemma groups_of_add_group:
  "groups_of (snd (add_group g s)) =
     (if g \<in> set (groups_of s) then groups_of s else groups_of s @ [g])"
  by (simp add: add_group_def file_with_lock groups_of_def Let_def get_list_def)

lemma notifications_of_add_group:
  "notifications_of (snd (add_group g s)) = notifications_of s"
  by (simp add: add_group_def file_with_lock notifications_of_def Let_def)

lemma groups_of_remove_group:
  "groups_of (snd (remove_group g s)) = remove1 g (groups_of s)"
  by (simp add: remove_group_def file_with_lock groups_of_def Let_def get_list_def remove1_idem)

lemma fresh_store_notifications:
  "notifications_of fresh_store = Map.empty" "groups_of fresh_store = []"
  by (simp_all add: notifications_of_def groups_of_def fresh_store_def default_document_def
      get_dict_def get_list_def)

lemmas notification_lookups = notifications_of_set_notification_group
  groups_of_set_notification_group groups_of_add_group notifications_of_add_group
  fresh_store_notifications

text \<open>
  Claim C4 as stated (for every membership predicate, a preferred group that is set and
  has the user as a member is the result) fails for the empty string: \<open>if preferred and
  ...\<close> takes a stored preference \<open>""\<close> as no preference.  With the preference \<open>""\<close>
  stored for \<open>Q\<close>, the group \<open>G1\<close> stored and a membership query that is true of every
  group, the result is \<open>G1\<close>, not the preferred \<open>""\<close>.
\<close>

theorem empty_preference_scans_counterexample:
  "notifications_of
     (snd (add_group ''G1'' (snd (set_notification_group ''Q'' '''' fresh_store)))) ''Q'' = Some '''' \<and>
   member_of_every_group '''' ''Q'' \<and>
   fst (find_notification_group member_of_every_group ''Q''
     (snd (add_group ''G1'' (snd (set_notification_group ''Q'' '''' fresh_store))))) = Some ''G1'' \<and>
   Some ''G1'' \<noteq> Some ''''"
  by (simp add: find_notification_group_fst notification_lookups member_of_every_group_def)

text \<open>
  Claim C4, as the code has it (the order of channel resolution).  If the stored
  preference is \<open>"private"\<close> the result is the private chat (\<open>None\<close>).  Else, if the
  stored preference is a non-empty string and the user is a member of that group, the
  result is that group.  Else, and so also when the stored preference is the empty
  string, the result is the scan of the stored groups: the first group, in stored order,
  of which the user is a member, and the private chat if there is none.  In particular:
  preference \<open>G1\<close>, membership in \<open>G2\<close> only and stored groups \<open>G1\<close>, \<open>G2\<close> give
  \<open>G2\<close>; no preference and no membership give the private chat.
\<close>

theorem find_notification_group_order:
  "(notifications_of s qq = Some ''private'' \<longrightarrow>
      fst (find_notification_group member qq s) = None) \<and>
   (notifications_of s qq = Some g \<and> g \<noteq> ''private'' \<and> g \<noteq> [] \<and> member g qq \<longrightarrow>
      fst (find_notification_group member qq s) = Some g) \<and>
   (notifications_of s qq \<noteq> Some ''private'' \<and>
    \<not> (\<exists>g. notifications_of s qq = Some g \<and> g \<noteq> [] \<and> member g qq) \<longrightarrow>
      fst (find_notification_group member qq s) = scan_groups (\<lambda>g. member g qq) (groups_of s) \<and>
      (\<forall>g'. fst (find_notification_group member qq s) = Some g' \<longleftrightarrow>
         (\<exists>ys zs. groups_of s = ys @ g' # zs \<and> member g' qq \<and> (\<forall>y \<in> set ys. \<not> member y qq))) \<and>
      (fst (find_notification_group member qq s) = None \<longleftrightarrow>
         (\<forall>y \<in> set (groups_of s). \<not> member y qq))) \<and>
   (notifications_of s qq = Some G1 \<and> G1 \<noteq> ''private'' \<and> G1 \<noteq> G2 \<and>
    set (groups_of s) = {G1, G2} \<and> \<not> member G1 qq \<and> member G2 qq \<longrightarrow>
      fst (find_notification_group member qq s) = Some G2) \<and>
   (notifications_of s qq = None \<and> (\<forall>y \<in> set (groups_of s). \<not> member y qq) \<longrightarrow>
      fst (find_notification_group member qq s) = None) \<and>
   (notifications_of s qq = Some [] \<longrightarrow>
      fst (find_notification_group member qq s) = scan_groups (\<lambda>g. member g qq) (groups_of s))"
proof (intro conjI impI)
  assume "notifications_of s qq = Some ''private''"
  then show "fst (find_notification_group member qq s) = None"
    by (simp add: find_notification_group_fst)
next
  assume "notifications_of s qq = Some g \<and> g \<noteq> ''private'' \<and> g \<noteq> [] \<and> member g qq"
  then show "fst (find_notification_group member qq s) = Some g"
    by (simp add: find_notification_group_fst)
next
  assume a: "notifications_of s qq \<noteq> Some ''private'' \<and>
    \<not> (\<exists>g. notifications_of s qq = Some g \<and> g \<noteq> [] \<and> member g qq)"
  then show r: "fst (find_notification_group member qq s) =
      scan_groups (\<lambda>g. member g qq) (groups_of s)"
    by (auto simp: find_notification_group_fst split: option.splits)
  show "\<forall>g'. fst (find_notification_group member qq s) = Some g' \<longleftrightarrow>
         (\<exists>ys zs. groups_of s = ys @ g' # zs \<and> member g' qq \<and> (\<forall>y \<in> set ys. \<not> member y qq))"
    unfolding r by (simp add: scan_groups_Some)
  show "fst (find_notification_group member qq s) = None \<longleftrightarrow>
         (\<forall>y \<in> set (groups_of s). \<not> member y qq)"
    unfolding r by (simp add: scan_groups_None)
next
  assume a: "notifications_of s qq = Some G1 \<and> G1 \<noteq> ''private'' \<and> G1 \<noteq> G2 \<and>
    set (groups_of s) = {G1, G2} \<and> \<not> member G1 qq \<and> member G2 qq"
  then have "scan_groups (\<lambda>g. member g qq) (groups_of s) \<noteq> None"
    by (auto simp: scan_groups_None)
  then obtain g' where g': "scan_groups (\<lambda>g. member g qq) (groups_of s) = Some g'" by auto
  then obtain ys zs where "groups_of s = ys @ g' # zs" "member g' qq"
    by (auto simp: scan_groups_Some)
  then have "g' \<in> set (groups_of s)" "member g' qq" by simp_all
  with a have "g' = G2" by auto
  with a g' show "fst (find_notification_group member qq s) = Some G2"
    by (simp add: find_notification_group_fst)
next
  assume "notifications_of s qq = None \<and> (\<forall>y \<in> set (groups_of s). \<not> member y qq)"
  then show "fst (find_notification_group member qq s) = None"
    by (simp add: find_notification_group_fst scan_groups_None)
next
  assume "notifications_of s qq = Some []"
  then show "fst (find_notification_group member qq s) =
      scan_groups (\<lambda>g. member g qq) (groups_of s)"
    by (simp add: find_notification_group_fst)
qed

theorem find_notification_group_order_witness:
  "fst (find_notification_group (\<lambda>g q. True) ''Q''
     (snd (set_notification_group ''Q'' ''private'' (snd (add_group ''G1'' fresh_store))))) = None \<and>
   fst (find_notification_group (\<lambda>g q. True) ''Q''
     (snd (add_group ''G2'' (snd (add_group ''G1''
        (snd (set_notification_group ''Q'' ''G1'' fresh_store))))))) = Some ''G1'' \<and>
   fst (find_notification_group (\<lambda>g q. g = ''G2'') ''Q''
     (snd (add_group ''G2'' (snd (add_group ''G1''
        (snd (set_notification_group ''Q'' ''G1'' fresh_store))))))) = Some ''G2'' \<and>
   fst (find_notification_group (\<lambda>g q. False) ''Q''
     (snd (add_group ''G2'' (snd (add_group ''G1'' fresh_store))))) = None \<and>
   fst (find_notification_group (\<lambda>g q. True) ''Q''
     (snd (add_group ''G1'' (snd (set_notification_group ''Q'' '''' fresh_store))))) = Some ''G1''"
proof -
  let ?se = "snd (add_group ''G1'' (snd (set_notification_group ''Q'' '''' fresh_store)))"
  have ne: "notifications_of ?se ''Q'' = Some []" by (simp add: notification_lookups)
  have ge: "groups_of ?se = [''G1'']" by (simp add: notification_lookups)
  let ?sp = "snd (set_notification_group ''Q'' ''private'' (snd (add_group ''G1'' fresh_store)))"
  let ?s1 = "snd (add_group ''G2'' (snd (add_group ''G1''
        (snd (set_notification_group ''Q'' ''G1'' fresh_store)))))"
  let ?s0 = "snd (add_group ''G2'' (snd (add_group ''G1'' fresh_store)))"
  have p: "notifications_of ?sp ''Q'' = Some ''private''" by (simp add: notification_lookups)
  have n1: "notifications_of ?s1 ''Q'' = Some ''G1''" by (simp add: notification_lookups)
  have g1: "groups_of ?s1 = [''G1'', ''G2'']" by (simp add: notification_lookups)
  have n0: "notifications_of ?s0 ''Q'' = None" by (simp add: notification_lookups)
  have g0: "groups_of ?s0 = [''G1'', ''G2'']" by (simp add: notification_lookups)
  have c: "scan_groups (\<lambda>g. g = ''G2'') [''G1'', ''G2''] = Some ''G2''" by simp
  note find_notification_group_order
      [where s = ?sp and qq = "''Q''" and member = "\<lambda>g q. True"]
    find_notification_group_order
      [where s = ?s1 and qq = "''Q''" and member = "\<lambda>g q. True" and g = "''G1''"]
    find_notification_group_order
      [where s = ?s1 and qq = "''Q''" and member = "\<lambda>g q. g = ''G2''" and ?G1.0 = "''G1''"
         and ?G2.0 = "''G2''"]
    find_notification_group_order
      [where s = ?s0 and qq = "''Q''" and member = "\<lambda>g q. False"]
    find_notification_group_order
      [where s = ?se and qq = "''Q''" and member = "\<lambda>g q. True"]
  with p n1 g1 n0 g0 c ne ge show ?thesis by simp
qed

section \<open>Missing and malformed files\<close>

lemma empty_document_views:
  assumes "data_file s = FileMissing \<or> data_file s = FileMalformed"
  shows "load_text (data_file s) = empty_document" "bindings_of s = Map.empty"
    "user_qq_map_of s = Map.empty" "notifications_of s = Map.empty" "pending_of s = Map.empty"
    "groups_of s = []"
  using assms
  by (auto simp: bindings_of_def user_qq_map_of_def notifications_of_def pending_of_def
      groups_of_def empty_document_def get_dict_def get_list_def)

text \<open>
  A missing file and a file whose text is not JSON are read as the empty document.  On
  such a file the load gives \<open>{}\<close>; every lookup returns \<open>None\<close>, the group list is
  empty, the cooldown check allows a request and a verification finds no pending
  request; and every mutating operation writes the document it builds from \<open>{}\<close>
  (\<open>remove_group\<close> finds nothing to remove and does not write).
\<close>

lemma load_missing_or_malformed_is_empty:
  "data_file s = FileMissing \<or> data_file s = FileMalformed \<longrightarrow>
     load_text (data_file s) = empty_document \<and>
     fst (get_binding q s) = None \<and>
     fst (get_qq_by_username u s) = None \<and>
     fst (get_notification_group q s) = None \<and>
     pending_of s q = None \<and>
     fst (get_groups s) = [] \<and>
     fst (check_bind_cooldown q now s) = (True, 0) \<and>
     fst (verify_binding q c now s) = (False, NoPendingRequest) \<and>
     data_file (snd (set_binding q u s)) = FileJson (set_binding_body q u empty_document) \<and>
     fst (get_binding q (snd (set_binding q u s))) = Some u \<and>
     fst (get_qq_by_username u (snd (set_binding q u s))) = Some q \<and>
     data_file (snd (create_pending_binding q u r t1 t2 s)) =
       FileJson (empty_document\<lparr>pending_bindings :=
         Some [q \<mapsto> \<lparr>username = u, code = str_int r,
                       expire_time = t1 + VERIFICATION_TIMEOUT, request_time = t2\<rparr>]\<rparr>) \<and>
     data_file (snd (set_notification_group q g s)) =
       FileJson (empty_document\<lparr>notifications := Some [q \<mapsto> g]\<rparr>) \<and>
     data_file (snd (add_group g s)) = FileJson (empty_document\<lparr>groups := Some [g]\<rparr>) \<and>
     data_file (snd (remove_group g s)) = data_file s"
proof
  assume a: "data_file s = FileMissing \<or> data_file s = FileMalformed"
  note v = empty_document_views [OF a]
  have e: "get_dict (pending_bindings empty_document) = Map.empty"
    "get_dict (notifications empty_document) = Map.empty"
    "get_list (groups empty_document) = []"
    by (simp_all add: empty_document_def get_dict_def get_list_def)
  show "load_text (data_file s) = empty_document \<and>
     fst (get_binding q s) = None \<and>
     fst (get_qq_by_username u s) = None \<and>
     fst (get_notification_group q s) = None \<and>
     pending_of s q = None \<and>
     fst (get_groups s) = [] \<and>
     fst (check_bind_cooldown q now s) = (True, 0) \<and>
     fst (verify_binding q c now s) = (False, NoPendingRequest) \<and>
     data_file (snd (set_binding q u s)) = FileJson (set_binding_body q u empty_document) \<and>
     fst (get_binding q (snd (set_binding q u s))) = Some u \<and>
     fst (get_qq_by_username u (snd (set_binding q u s))) = Some q \<and>
     data_file (snd (create_pending_binding q u r t1 t2 s)) =
       FileJson (empty_document\<lparr>pending_bindings :=
         Some [q \<mapsto> \<lparr>username = u, code = str_int r,
                       expire_time = t1 + VERIFICATION_TIMEOUT, request_time = t2\<rparr>]\<rparr>) \<and>
     data_file (snd (set_notification_group q g s)) =
       FileJson (empty_document\<lparr>notifications := Some [q \<mapsto> g]\<rparr>) \<and>
     data_file (snd (add_group g s)) = FileJson (empty_document\<lparr>groups := Some [g]\<rparr>) \<and>
     data_file (snd (remove_group g s)) = data_file s"
  proof -
    have "fst (get_binding q (snd (set_binding q u s))) = Some u"
      "fst (get_qq_by_username u (snd (set_binding q u s))) = Some q"
      by (simp_all add: get_binding_fst get_qq_by_username_fst bindings_of_set_binding
          user_qq_map_of_set_binding)
    moreover have "fst (get_binding q s) = None" "fst (get_qq_by_username u s) = None"
      "fst (get_notification_group q s) = None" "fst (get_groups s) = []"
      "fst (check_bind_cooldown q now s) = (True, 0)"
      "fst (verify_binding q c now s) = (False, NoPendingRequest)"
      by (simp_all add: v get_binding_fst get_qq_by_username_fst get_notification_group_fst
          get_groups_fst check_bind_cooldown_fst verify_binding_unfold)
    moreover have
      "data_file (snd (set_binding q u s)) = FileJson (set_binding_body q u empty_document)"
      "data_file (snd (create_pending_binding q u r t1 t2 s)) =
         FileJson (empty_document\<lparr>pending_bindings :=
           Some [q \<mapsto> \<lparr>username = u, code = str_int r,
                         expire_time = t1 + VERIFICATION_TIMEOUT, request_time = t2\<rparr>]\<rparr>)"
      "data_file (snd (set_notification_group q g s)) =
         FileJson (empty_document\<lparr>notifications := Some [q \<mapsto> g]\<rparr>)"
      "data_file (snd (add_group g s)) = FileJson (empty_document\<lparr>groups := Some [g]\<rparr>)"
      "data_file (snd (remove_group g s)) = data_file s"
      by (simp_all add: v(1) e set_binding_def create_pending_binding_def
          set_notification_group_def add_group_def remove_group_def file_with_lock Let_def)
    ultimately show ?thesis by (simp add: v)
  qed
qed

lemma on_file_raises: "on_file operation d n = Inl e \<longleftrightarrow> load d = Inl e"
  by (cases d) simp_all

lemma on_file_runs:
  "on_file operation d n = Inr r \<longleftrightarrow>
     (\<exists>f. d = Readable f \<and> load d = Inr (load_text f) \<and>
          r = operation \<lparr>data_file = f, lock_acquisitions = n\<rparr>)"
  by (cases d) auto

text \<open>
  Claim C9 (a file that is missing or does not hold valid JSON is read as the empty
  document, without an error).  For a missing file and for text that is not JSON the
  load gives \<open>{}\<close> and a lookup returns \<open>None\<close>.  A file whose bytes are not UTF-8 text
  does not hold valid JSON either, and there the load raises \<open>UnicodeDecodeError\<close>, which
  the \<open>except\<close> clause of \<open>_load\<close> does not name: every lookup and every mutating
  operation ends with this exception instead of working from the empty document.
\<close>

theorem load_undecodable_raises:
  "load Undecodable = Inl UnicodeDecodeError \<and>
   on_file (get_binding ''Q'') Undecodable 0 = Inl UnicodeDecodeError \<and>
   on_file (get_qq_by_username ''alice'') Undecodable 0 = Inl UnicodeDecodeError \<and>
   on_file (get_notification_group ''Q'') Undecodable 0 = Inl UnicodeDecodeError \<and>
   on_file get_groups Undecodable 0 = Inl UnicodeDecodeError \<and>
   on_file (check_bind_cooldown ''Q'' 1000) Undecodable 0 = Inl UnicodeDecodeError \<and>
   on_file (verify_binding ''Q'' ''123456'' 1000) Undecodable 0 = Inl UnicodeDecodeError \<and>
   on_file (set_binding ''Q'' ''alice'') Undecodable 0 = Inl UnicodeDecodeError \<and>
   on_file (add_group ''G1'') Undecodable 0 = Inl UnicodeDecodeError \<and>
   load (Readable FileMissing) = Inr empty_document \<and>
   load (Readable FileMalformed) = Inr empty_document \<and>
   on_file (get_binding ''Q'') (Readable FileMalformed) 0 =
     Inr (None, \<lparr>data_file = FileMalformed, lock_acquisitions = 1\<rparr>)"
  by (simp add: get_binding_def with_lock_def empty_document_def get_dict_def)

section \<open>Saving\<close>




section \<open>Acquisitions of the lock\<close>

lemma one_lock_acquisition:
  "lock_acquisitions (snd (get_binding q s)) = Suc (lock_acquisitions s)"
  "lock_acquisitions (snd (get_qq_by_username u s)) = Suc (lock_acquisitions s)"
  "lock_acquisitions (snd (set_binding q u s)) = Suc (lock_acquisitions s)"
  "lock_acquisitions (snd (check_bind_cooldown q now s)) = Suc (lock_acquisitions s)"
  "lock_acquisitions (snd (create_pending_binding q u r t1 t2 s)) = Suc (lock_acquisitions s)"
  "lock_acquisitions (snd (set_notification_group q g s)) = Suc (lock_acquisitions s)"
  "lock_acquisitions (snd (get_notification_group q s)) = Suc (lock_acquisitions s)"
  "lock_acquisitions (snd (add_group g s)) = Suc (lock_acquisitions s)"
  "lock_acquisitions (snd (remove_group g s)) = Suc (lock_acquisitions s)"
  "lock_acquisitions (snd (get_groups s)) = Suc (lock_acquisitions s)"
  by (simp_all add: get_binding_def get_qq_by_username_def set_binding_def
      check_bind_cooldown_def create_pending_binding_def set_notification_group_def
      get_notification_group_def add_group_def remove_group_def get_groups_def
      locks_with_lock Let_def)

text \<open>
  Claim C5 as stated (no operation spans two acquisitions of the lock) fails: a bind
  request that passes the cooldown check takes the lock twice, once in
  \<open>check_bind_cooldown\<close> and once in \<open>create_pending_binding\<close>, and a successful
  \<open>verify_binding\<close> takes it twice, once to consume the pending entry and once in
  \<open>set_binding\<close>.  Between the two acquisitions another request can run: two bind
  requests for \<open>Q\<close> one second apart both pass the check before either has stored its
  entry, and both store one.
\<close>

theorem two_lock_acquisitions_counterexample:
  "lock_acquisitions (snd (handle_bind ''Q'' ''alice'' 123456 1000 1000 1000 fresh_store)) = 2 \<and>
   fst (verify_binding ''Q'' (str_int 123456) 1100
     (snd (create_pending_binding ''Q'' ''alice'' 123456 1000 1000 fresh_store))) =
     (True, BindingSucceeded ''alice'') \<and>
   lock_acquisitions (snd (verify_binding ''Q'' (str_int 123456) 1100
     (snd (create_pending_binding ''Q'' ''alice'' 123456 1000 1000 fresh_store)))) =
     lock_acquisitions (snd (create_pending_binding ''Q'' ''alice'' 123456 1000 1000 fresh_store)) + 2 \<and>
   fst (check_bind_cooldown ''Q'' 1000 fresh_store) = (True, 0) \<and>
   fst (check_bind_cooldown ''Q'' 1001 (snd (check_bind_cooldown ''Q'' 1000 fresh_store))) = (True, 0) \<and>
   map_option username (pending_of
     (snd (create_pending_binding ''Q'' ''bob'' 222222 1001 1001
       (snd (create_pending_binding ''Q'' ''alice'' 111111 1000 1000
         (snd (check_bind_cooldown ''Q'' 1001
           (snd (check_bind_cooldown ''Q'' 1000 fresh_store)))))))) ''Q'') = Some ''bob''"
proof -
  let ?s1 = "snd (create_pending_binding ''Q'' ''alice'' 123456 1000 1000 fresh_store)"
  have p: "pending_of ?s1 ''Q'' = Some \<lparr>username = ''alice'', code = str_int 123456,
      expire_time = 1300, request_time = 1000\<rparr>"
    by (simp add: pending_lookups VERIFICATION_TIMEOUT_def)
  have a: "lock_acquisitions (snd (handle_bind ''Q'' ''alice'' 123456 1000 1000 1000 fresh_store)) = 2"
  proof -
    have "lock_acquisitions fresh_store = 0" by (simp add: fresh_store_def)
    then show ?thesis by (simp add: handle_bind_unfold one_lock_acquisition pending_lookups)
  qed
  have b: "fst (verify_binding ''Q'' (str_int 123456) 1100 ?s1) = (True, BindingSucceeded ''alice'')"
    "lock_acquisitions (snd (verify_binding ''Q'' (str_int 123456) 1100 ?s1)) =
       lock_acquisitions ?s1 + 2"
    by (simp_all add: verify_binding_unfold p)
  have c: "fst (check_bind_cooldown ''Q'' 1000 fresh_store) = (True, 0)"
    "fst (check_bind_cooldown ''Q'' 1001 (snd (check_bind_cooldown ''Q'' 1000 fresh_store))) = (True, 0)"
    by (simp_all add: pending_lookups pending_of_check_bind_cooldown)
  have d: "map_option username (pending_of
     (snd (create_pending_binding ''Q'' ''bob'' 222222 1001 1001
       (snd (create_pending_binding ''Q'' ''alice'' 111111 1000 1000
         (snd (check_bind_cooldown ''Q'' 1001
           (snd (check_bind_cooldown ''Q'' 1000 fresh_store)))))))) ''Q'') = Some ''bob''"
    by (simp add: pending_lookups)
  from a b c d show ?thesis by simp
qed

text \<open>
  Claim C5, as the code has it: every method of the data manager other than
  \<open>verify_binding\<close> takes the lock exactly once; \<open>verify_binding\<close> takes it once when it
  fails and twice when it succeeds; the bind request takes it twice when the cooldown
  check passes and once otherwise; channel resolution takes it once when the preference
  decides and twice when the stored groups are scanned.
\<close>

theorem lock_acquisitions_per_operation:
  "lock_acquisitions (snd (get_binding q s)) = lock_acquisitions s + 1 \<and>
   lock_acquisitions (snd (get_qq_by_username u s)) = lock_acquisitions s + 1 \<and>
   lock_acquisitions (snd (set_binding q u s)) = lock_acquisitions s + 1 \<and>
   lock_acquisitions (snd (check_bind_cooldown q now s)) = lock_acquisitions s + 1 \<and>
   lock_acquisitions (snd (create_pending_binding q u r t1 t2 s)) = lock_acquisitions s + 1 \<and>
   lock_acquisitions (snd (set_notification_group q g s)) = lock_acquisitions s + 1 \<and>
   lock_acquisitions (snd (get_notification_group q s)) = lock_acquisitions s + 1 \<and>
   lock_acquisitions (snd (add_group g s)) = lock_acquisitions s + 1 \<and>
   lock_acquisitions (snd (remove_group g s)) = lock_acquisitions s + 1 \<and>
   lock_acquisitions (snd (get_groups s)) = lock_acquisitions s + 1 \<and>
   lock_acquisitions (snd (verify_binding q c now s)) =
     lock_acquisitions s + (if fst (fst (verify_binding q c now s)) then 2 else 1) \<and>
   lock_acquisitions (snd (handle_bind q u r now t1 t2 s)) =
     lock_acquisitions s + (if fst (fst (check_bind_cooldown q now s)) then 2 else 1) \<and>
   lock_acquisitions (snd (find_notification_group member q s)) =
     lock_acquisitions s +
       (if notifications_of s q = Some ''private'' \<or>
           (\<exists>g. notifications_of s q = Some g \<and> g \<noteq> [] \<and> member g q)
        then 1 else 2)"
proof -
  have v: "lock_acquisitions (snd (verify_binding q c now s)) =
     lock_acquisitions s + (if fst (fst (verify_binding q c now s)) then 2 else 1)"
    by (simp add: verify_binding_unfold split: option.splits)
  have h: "lock_acquisitions (snd (handle_bind q u r now t1 t2 s)) =
     lock_acquisitions s + (if fst (fst (check_bind_cooldown q now s)) then 2 else 1)"
    by (simp add: handle_bind_unfold one_lock_acquisition)
  have f: "lock_acquisitions (snd (find_notification_group member q s)) =
     lock_acquisitions s +
       (if notifications_of s q = Some ''private'' \<or>
           (\<exists>g. notifications_of s q = Some g \<and> g \<noteq> [] \<and> member g q)
        then 1 else 2)"
    by (cases "notifications_of s q")
       (auto simp: find_notification_group_unfold get_notification_group_fst
          one_lock_acquisition truthy_def)
  show ?thesis using v h f by (simp add: one_lock_acquisition)
qed

theorem lock_acquisitions_per_operation_witness:
  "lock_acquisitions (snd (set_binding ''Q'' ''alice'' fresh_store)) = 1 \<and>
   lock_acquisitions (snd (verify_binding ''Q'' ''000000'' 1100 fresh_store)) = 1 \<and>
   lock_acquisitions (snd (handle_bind ''Q'' ''alice'' 123456 1000 1000 1000 fresh_store)) = 2"
proof -
  have "fst (verify_binding ''Q'' ''000000'' 1100 fresh_store) = (False, NoPendingRequest)"
    by (simp add: verify_binding_unfold pending_of_fresh_store)
  moreover have "fst (check_bind_cooldown ''Q'' 1000 fresh_store) = (True, 0)"
    by (simp add: pending_lookups)
  moreover have "lock_acquisitions fresh_store = 0" by (simp add: fresh_store_def)
  moreover note lock_acquisitions_per_operation
    [where s = fresh_store and q = "''Q''" and u = "''alice''" and c = "''000000''"
       and now = 1100]
    lock_acquisitions_per_operation
    [where s = fresh_store and q = "''Q''" and u = "''alice''" and r = 123456
       and now = 1000 and ?t1.0 = 1000 and ?t2.0 = 1000]
  ultimately show ?thesis by simp
qed

end
